theory Spec2Isabelle
  imports Complex_Main
begin

section \<open>Numbers, strings and time values of the host language\<close>

text \<open>
  The module \<^verbatim>\<open>src/04-date-tasks.js\<close> consists of five functions over the
  JavaScript \<^verbatim>\<open>Date\<close> object.  A time value is an integral Number of milliseconds
  since 1970-01-01T00:00:00Z, or NaN.  Every Number the five functions compute from a
  time value is an integer (or NaN), apart from the quotients passed to
  \<^verbatim>\<open>toFixed\<close> and the angle returned by \<^verbatim>\<open>angleBetweenClockHands\<close>.  So a Number
  that holds a time value or a count is an \<open>int option\<close> with \<open>None\<close> for NaN, the
  quotients are rationals.  Integer arithmetic on doubles is exact below \<open>2 ^ 53\<close>,
  which covers every time value (at most \<open>8.64 * 10 ^ 15\<close> in magnitude) and every
  difference of two time values that are less than \<open>2 ^ 53\<close> apart; the rounding
  of a difference beyond that is not modelled.  The angle is modelled twice: over
  the reals, with \<open>pi\<close> for \<^verbatim>\<open>Math.PI\<close>, and in double precision, each operation
  rounded to the nearest double.
\<close>

type_synonym js_number = "int option"

text \<open>A \<^verbatim>\<open>Date\<close> object: its internal slot \<^verbatim>\<open>[[DateValue]]\<close>, which \<^verbatim>\<open>valueOf\<close> reads.\<close>

datatype js_date = Date (valueOf: js_number)

abbreviation msPerSecond :: int where "msPerSecond \<equiv> 1000"
abbreviation msPerMinute :: int where "msPerMinute \<equiv> 60000"
abbreviation msPerHour :: int where "msPerHour \<equiv> 3600000"
abbreviation msPerDay :: int where "msPerDay \<equiv> 86400000"

subsection \<open>Day number and time within day (ECMA-262, Date objects)\<close>

definition Day :: "int \<Rightarrow> int" where
  "Day t = t div msPerDay"

definition TimeWithinDay :: "int \<Rightarrow> int" where
  "TimeWithinDay t = t mod msPerDay"

definition DaysInYear :: "int \<Rightarrow> int" where
  "DaysInYear y =
     (if y mod 4 \<noteq> 0 then 365
      else if y mod 100 \<noteq> 0 then 366
      else if y mod 400 \<noteq> 0 then 365
      else 366)"

definition DayFromYear :: "int \<Rightarrow> int" where
  "DayFromYear y =
     365 * (y - 1970) + (y - 1969) div 4 - (y - 1901) div 100 + (y - 1601) div 400"

definition TimeFromYear :: "int \<Rightarrow> int" where
  "TimeFromYear y = msPerDay * DayFromYear y"

text \<open>
  ECMA-262 specifies \<^verbatim>\<open>YearFromTime(t)\<close> as the largest integer \<open>y\<close> with
  \<open>TimeFromYear y \<le> t\<close>.  The computation below estimates the year from the
  mean length of a Gregorian year (146097 days in 400 years) and corrects the
  estimate by at most one; lemma \<open>YearFromTime_largest\<close> shows that it is that
  largest integer.
\<close>

definition YearFromDay :: "int \<Rightarrow> int" where
  "YearFromDay d =
     (let y = 1970 + (400 * d) div 146097
      in if d < DayFromYear y then y - 1
         else if DayFromYear (y + 1) \<le> d then y + 1
         else y)"

definition YearFromTime :: "int \<Rightarrow> int" where
  "YearFromTime t = YearFromDay (Day t)"

definition InLeapYear :: "int \<Rightarrow> int" where
  "InLeapYear t = (if DaysInYear (YearFromTime t) = 365 then 0 else 1)"

definition DayWithinYear :: "int \<Rightarrow> int" where
  "DayWithinYear t = Day t - DayFromYear (YearFromTime t)"

definition MonthFromTime :: "int \<Rightarrow> int" where
  "MonthFromTime t =
     (let d = DayWithinYear t; l = InLeapYear t
      in if d < 31 then 0
         else if d < 59 + l then 1
         else if d < 90 + l then 2
         else if d < 120 + l then 3
         else if d < 151 + l then 4
         else if d < 181 + l then 5
         else if d < 212 + l then 6
         else if d < 243 + l then 7
         else if d < 273 + l then 8
         else if d < 304 + l then 9
         else if d < 334 + l then 10
         else 11)"

definition DateFromTime :: "int \<Rightarrow> int" where
  "DateFromTime t =
     (let d = DayWithinYear t; l = InLeapYear t; m = MonthFromTime t
      in if m = 0 then d + 1
         else if m = 1 then d - 30
         else if m = 2 then d - 58 - l
         else if m = 3 then d - 89 - l
         else if m = 4 then d - 119 - l
         else if m = 5 then d - 150 - l
         else if m = 6 then d - 180 - l
         else if m = 7 then d - 211 - l
         else if m = 8 then d - 242 - l
         else if m = 9 then d - 272 - l
         else if m = 10 then d - 303 - l
         else d - 333 - l)"

definition HourFromTime :: "int \<Rightarrow> int" where
  "HourFromTime t = (t div msPerHour) mod 24"

definition MinFromTime :: "int \<Rightarrow> int" where
  "MinFromTime t = (t div msPerMinute) mod 60"

definition SecFromTime :: "int \<Rightarrow> int" where
  "SecFromTime t = (t div msPerSecond) mod 60"

definition msFromTime :: "int \<Rightarrow> int" where
  "msFromTime t = t mod msPerSecond"

definition MakeTime :: "int \<Rightarrow> int \<Rightarrow> int \<Rightarrow> int \<Rightarrow> int" where
  "MakeTime hour minute sec ms =
     hour * msPerHour + minute * msPerMinute + sec * msPerSecond + ms"

text \<open>
  \<^verbatim>\<open>MakeDay\<close> is specified through a time value whose year and month are the given
  ones and whose date is 1.  The day number of that time value is the first day
  of the year plus the days of the months before; lemma \<open>MakeDay_first\<close> shows that
  it has the year, month and date demanded.
\<close>

definition DaysBeforeMonth :: "int \<Rightarrow> int \<Rightarrow> int" where
  "DaysBeforeMonth y mn =
     (let l = (if DaysInYear y = 365 then 0 else 1)
      in if mn = 0 then 0
         else if mn = 1 then 31
         else if mn = 2 then 59 + l
         else if mn = 3 then 90 + l
         else if mn = 4 then 120 + l
         else if mn = 5 then 151 + l
         else if mn = 6 then 181 + l
         else if mn = 7 then 212 + l
         else if mn = 8 then 243 + l
         else if mn = 9 then 273 + l
         else if mn = 10 then 304 + l
         else 334 + l)"

definition MakeDay :: "int \<Rightarrow> int \<Rightarrow> int \<Rightarrow> int" where
  "MakeDay year month date =
     (let ym = year + month div 12; mn = month mod 12
      in DayFromYear ym + DaysBeforeMonth ym mn + date - 1)"

definition MakeDate :: "int \<Rightarrow> int \<Rightarrow> int" where
  "MakeDate day time = day * msPerDay + time"

definition TimeClip :: "int \<Rightarrow> js_number" where
  "TimeClip t = (if \<bar>t\<bar> > 8640000000000000 then None else Some t)"

definition MakeFullYear :: "int \<Rightarrow> int" where
  "MakeFullYear y = (if 0 \<le> y \<and> y \<le> 99 then 1900 + y else y)"

subsection \<open>The Date constructor, its getters and \<^verbatim>\<open>Date.UTC\<close>\<close>

text \<open>
  The two host facilities that ECMA-262 leaves to the implementation are parameters:
  \<open>parse\<close> is \<^verbatim>\<open>Date.parse\<close> (the time value a string denotes, \<open>None\<close> = NaN when
  the host does not recognise the string), and \<open>tza\<close> is the offset of local time
  from UTC at a given time value, in milliseconds.
\<close>

type_synonym host_parse = "string \<Rightarrow> js_number"
type_synonym host_tza = "int \<Rightarrow> int"

text \<open>\<^verbatim>\<open>new Date(value)\<close> for a string: \<^verbatim>\<open>TimeClip\<close> of what the host parses.\<close>

definition new_Date_string :: "host_parse \<Rightarrow> string \<Rightarrow> js_date" where
  "new_Date_string parse v = Date (case parse v of None \<Rightarrow> None | Some tv \<Rightarrow> TimeClip tv)"

text \<open>\<^verbatim>\<open>new Date(value)\<close> for a Number.\<close>

definition new_Date_number :: "js_number \<Rightarrow> js_date" where
  "new_Date_number v = Date (case v of None \<Rightarrow> None | Some tv \<Rightarrow> TimeClip tv)"

definition getUTCFullYear :: "js_date \<Rightarrow> js_number" where
  "getUTCFullYear d = map_option YearFromTime (valueOf d)"

definition getUTCMonth :: "js_date \<Rightarrow> js_number" where
  "getUTCMonth d = map_option MonthFromTime (valueOf d)"

definition getUTCDate :: "js_date \<Rightarrow> js_number" where
  "getUTCDate d = map_option DateFromTime (valueOf d)"

definition getUTCHours :: "js_date \<Rightarrow> js_number" where
  "getUTCHours d = map_option HourFromTime (valueOf d)"

definition getUTCMinutes :: "js_date \<Rightarrow> js_number" where
  "getUTCMinutes d = map_option MinFromTime (valueOf d)"

definition getUTCSeconds :: "js_date \<Rightarrow> js_number" where
  "getUTCSeconds d = map_option SecFromTime (valueOf d)"

definition LocalTime :: "host_tza \<Rightarrow> int \<Rightarrow> int" where
  "LocalTime tza t = t + tza t"

definition getFullYear :: "host_tza \<Rightarrow> js_date \<Rightarrow> js_number" where
  "getFullYear tza d = map_option (\<lambda>t. YearFromTime (LocalTime tza t)) (valueOf d)"

text \<open>
  \<^verbatim>\<open>Date.UTC(year, month, date, hours, minutes, seconds)\<close>; the milliseconds argument
  is absent in the only call of the module and defaults to 0.  NaN in any argument
  gives NaN.
\<close>

definition Date_UTC ::
  "js_number \<Rightarrow> js_number \<Rightarrow> js_number \<Rightarrow> js_number \<Rightarrow> js_number \<Rightarrow> js_number \<Rightarrow> js_number" where
  "Date_UTC year month date hours minutes seconds =
     (case (year, month, date, hours, minutes, seconds) of
        (Some y, Some m, Some dt, Some h, Some mi, Some s) \<Rightarrow>
          TimeClip (MakeDate (MakeDay (MakeFullYear y) m dt) (MakeTime h mi s 0))
      | _ \<Rightarrow> None)"

subsection \<open>Remainder, number-to-string and string-to-number conversion\<close>

text \<open>The operator \<^verbatim>\<open>%\<close> on integers: the result has the sign of the dividend.\<close>

definition js_rem :: "int \<Rightarrow> int \<Rightarrow> int" where
  "js_rem a b = sgn a * (\<bar>a\<bar> mod \<bar>b\<bar>)"

definition digit_char :: "nat \<Rightarrow> char" where
  "digit_char n = char_of (48 + n)"

fun digits :: "nat \<Rightarrow> string" where
  "digits n = (if n < 10 then [digit_char n] else digits (n div 10) @ [digit_char (n mod 10)])"

text \<open>\<^verbatim>\<open>Number::toString\<close> on an integer (negative zero prints as \<^verbatim>\<open>0\<close>, like zero).\<close>

definition NumberToString :: "int \<Rightarrow> string" where
  "NumberToString i = (if i < 0 then CHR ''-'' # digits (nat (- i)) else digits (nat i))"

text \<open>
  \<^verbatim>\<open>Number.prototype.toFixed(0)\<close>: the nearest integer, the larger one of two
  nearest; a negative number is formatted as its negation behind a minus sign, also
  when it rounds to zero.
\<close>

definition toFixed0 :: "rat \<Rightarrow> string" where
  "toFixed0 x =
     (if x < 0 then CHR ''-'' # digits (nat \<lfloor>- x + 1 / 2\<rfloor>)
      else digits (nat \<lfloor>x + 1 / 2\<rfloor>))"

text \<open>\<^verbatim>\<open>StringToNumber\<close> on an optional minus sign and decimal digits.\<close>

definition digit_val :: "char \<Rightarrow> nat" where
  "digit_val c = of_char c - 48"

definition digits_val :: "string \<Rightarrow> nat" where
  "digits_val s = foldl (\<lambda>a c. 10 * a + digit_val c) 0 s"

definition StringToNumber :: "string \<Rightarrow> int" where
  "StringToNumber s =
     (case s of
        [] \<Rightarrow> 0
      | c # r \<Rightarrow> if c = CHR ''-'' then - int (digits_val r) else int (digits_val s))"

text \<open>A value that is a Number or a String, with the two coercions the module relies on.\<close>

datatype js_val = Num int | Str string

fun ToNumber :: "js_val \<Rightarrow> int" where
  "ToNumber (Num n) = n"
| "ToNumber (Str s) = StringToNumber s"

fun ToString :: "js_val \<Rightarrow> string" where
  "ToString (Num n) = NumberToString n"
| "ToString (Str s) = s"

text \<open>The characters that \<open>digits\<close> produces, for the proofs about the strings.\<close>

definition is_digit :: "char \<Rightarrow> bool" where
  "is_digit c \<longleftrightarrow> 48 \<le> (of_char c :: nat) \<and> (of_char c :: nat) < 58"

section \<open>The five functions of the module\<close>

text \<open>\<^verbatim>\<open>parseDataFromRfc2822(value)\<close>: lines 22 to 33.\<close>

definition parseDataFromRfc2822 :: "host_parse \<Rightarrow> string \<Rightarrow> js_number" where
  "parseDataFromRfc2822 parse v =
     (let tm = new_Date_string parse v
      in Date_UTC (getUTCFullYear tm) (getUTCMonth tm) (getUTCDate tm)
           (getUTCHours tm) (getUTCMinutes tm) (getUTCSeconds tm))"


text \<open>
  \<^verbatim>\<open>isLeapYear(date)\<close>: lines 64 to 68.  The year is the one of local time.  For an
  invalid date it is NaN, every comparison \<^verbatim>\<open>NaN % n === 0\<close> is false, and so is
  the result.
\<close>

definition isLeapYear :: "host_tza \<Rightarrow> js_date \<Rightarrow> bool" where
  "isLeapYear tza date =
     (case getFullYear tza date of
        None \<Rightarrow> False
      | Some year \<Rightarrow>
          js_rem year 400 = 0 \<or> (js_rem year 100 \<noteq> 0 \<and> js_rem year 4 = 0))"

text \<open>
  \<^verbatim>\<open>timeSpanToString(startDate, endDate)\<close>: lines 85 to 106.  The inner function
  \<^verbatim>\<open>addZeros\<close> receives the Numbers \<^verbatim>\<open>mins\<close> and \<^verbatim>\<open>secs\<close> and the String
  \<^verbatim>\<open>hours\<close>; its comparison converts a String to a Number.
\<close>

definition addZeros :: "js_val \<Rightarrow> js_val" where
  "addZeros el = (if ToNumber el < 10 then Str (''0'' @ ToString el) else el)"

text \<open>
  The body for a difference that is a number.  The two divisions by 1000 and by 60
  are exact (lemmas \<open>allSecs_exact\<close> and \<open>allMins_exact\<close>).
\<close>

definition timeSpan :: "int \<Rightarrow> string" where
  "timeSpan diff =
     (let miliSecs = js_rem diff 1000;
          allSecs = (diff - miliSecs) div 1000;
          secs = (if allSecs < 60 then allSecs
                  else allSecs - StringToNumber (toFixed0 (of_int allSecs / 60)) * 60);
          allMins = (allSecs - secs) div 60;
          mins = (if allMins < 60 then allMins
                  else allMins - StringToNumber (toFixed0 (of_int allMins / 60)) * 60);
          hours = toFixed0 (of_int (allSecs - mins * 60) / 3600);
          miliSecs' = (if miliSecs < 100
                       then Str (if miliSecs < 10 then ''00'' @ NumberToString miliSecs
                                 else ''0'' @ NumberToString miliSecs)
                       else Num miliSecs)
      in ToString (addZeros (Str hours)) @ '':'' @ ToString (addZeros (Num mins)) @ '':''
           @ ToString (addZeros (Num secs)) @ ''.'' @ ToString miliSecs')"

text \<open>
  Two of the intermediate values of \<open>timeSpan\<close>, named for the proofs: the Number
  \<^verbatim>\<open>secs\<close>, and the text of \<^verbatim>\<open>miliSecs\<close> at the end of the result (lemma
  \<open>timeSpan_split\<close>).
\<close>

definition timeSpan_secs :: "int \<Rightarrow> int" where
  "timeSpan_secs diff =
     (let miliSecs = js_rem diff 1000;
          allSecs = (diff - miliSecs) div 1000
      in if allSecs < 60 then allSecs
         else allSecs - StringToNumber (toFixed0 (of_int allSecs / 60)) * 60)"

definition timeSpan_miliSecs :: "int \<Rightarrow> string" where
  "timeSpan_miliSecs diff =
     (let miliSecs = js_rem diff 1000
      in ToString (if miliSecs < 100
                   then Str (if miliSecs < 10 then ''00'' @ NumberToString miliSecs
                             else ''0'' @ NumberToString miliSecs)
                   else Num miliSecs))"

text \<open>
  With an invalid date the difference is NaN, and so is every number derived from
  it; every comparison with NaN is false, and NaN prints as \<^verbatim>\<open>NaN\<close>.
\<close>

definition timeSpanToString :: "js_date \<Rightarrow> js_date \<Rightarrow> string" where
  "timeSpanToString startDate endDate =
     (case (valueOf endDate, valueOf startDate) of
        (Some e, Some s) \<Rightarrow> timeSpan (e - s)
      | _ \<Rightarrow> ''NaN:NaN:NaN.NaN'')"

text \<open>
  \<^verbatim>\<open>angleBetweenClockHands(date)\<close>: lines 122 to 131.  The argument is a time value,
  as in the examples of the function's comment.  With NaN every comparison is false
  and the result is NaN.
\<close>

definition angleBetweenClockHands :: "js_number \<Rightarrow> real option" where
  "angleBetweenClockHands date =
     (let tm = new_Date_number date
      in case (getUTCHours tm, getUTCMinutes tm) of
           (Some h0, Some m) \<Rightarrow>
             (let h = (if h0 > 12 then js_rem h0 12 else h0);
                  angle = (pi / 360) * \<bar>of_int (60 * h - 11 * m)\<bar>
              in Some (if angle > pi then pi * 2 - angle else angle))
         | _ \<Rightarrow> None)"

subsection \<open>The angle in double precision\<close>

text \<open>
  A double is the rational number it denotes.  An arithmetic operation of IEEE 754
  returns the exact result rounded to the nearest double, the one with the even
  significand of two nearest: \<open>round_double\<close>, for a significand of 53 bits.
  Overflow, subnormal numbers and the sign of zero are not modelled; the angle
  stays far from all three.
\<close>

definition pow2 :: "int \<Rightarrow> rat" where
  "pow2 e = (if 0 \<le> e then 2 ^ nat e else 1 / 2 ^ nat (- e))"

text \<open>The number of binary digits of a positive integer.\<close>

function bit_length :: "int \<Rightarrow> int" where
  "bit_length n = (if n \<le> 0 then 0 else 1 + bit_length (n div 2))"
  by pat_completeness auto
termination
  by (relation "measure nat") auto

text \<open>For \<open>x > 0\<close>, the exponent \<open>e\<close> with \<open>2 ^ e \<le> x < 2 ^ (e + 1)\<close>.\<close>

definition floor_log2 :: "rat \<Rightarrow> int" where
  "floor_log2 x =
     (let (a, b) = quotient_of x;
          e = bit_length a - bit_length b
      in if x < pow2 e then e - 1 else e)"

definition round_double :: "rat \<Rightarrow> rat" where
  "round_double x =
     (if x = 0 then 0
      else let u = pow2 (floor_log2 \<bar>x\<bar> - 52);
               q = \<bar>x\<bar> / u;
               n = \<lfloor>q\<rfloor>;
               r = q - of_int n;
               k = (if r < 1 / 2 then n else if 1 / 2 < r then n + 1
                    else if even n then n else n + 1)
           in sgn x * of_int k * u)"

text \<open>\<^verbatim>\<open>Math.PI\<close>: the double nearest to \<open>pi\<close>, 3.141592653589793.\<close>

definition Math_PI :: rat where
  "Math_PI = 884279719003555 / 281474976710656"

text \<open>
  \<^verbatim>\<open>angleBetweenClockHands(date)\<close>, lines 122 to 131, in double precision.  The
  integer \<^verbatim>\<open>60 * h - 11 * m\<close> and its absolute value are exact.
\<close>

definition angleBetweenClockHands_double :: "js_number \<Rightarrow> rat option" where
  "angleBetweenClockHands_double date =
     (let tm = new_Date_number date
      in case (getUTCHours tm, getUTCMinutes tm) of
           (Some h0, Some m) \<Rightarrow>
             (let h = (if h0 > 12 then js_rem h0 12 else h0);
                  angle = round_double (round_double (Math_PI / 360) * of_int \<bar>60 * h - 11 * m\<bar>)
              in Some (if angle > Math_PI then round_double (round_double (Math_PI * 2) - angle)
                       else angle))
         | _ \<Rightarrow> None)"

section \<open>The specification's formulas\<close>

text \<open>
  The decomposition of section 4.4 of the specification, in its own words: floor
  division and modulo on the absolute difference, two digits at least for hours,
  minutes and seconds, three for milliseconds.
\<close>

definition pad2 :: "int \<Rightarrow> string" where
  "pad2 n = (if n < 10 then ''0'' @ NumberToString n else NumberToString n)"

definition pad3 :: "int \<Rightarrow> string" where
  "pad3 n = (if n < 10 then ''00'' @ NumberToString n
             else if n < 100 then ''0'' @ NumberToString n else NumberToString n)"

definition formatTimeSpan_spec :: "int \<Rightarrow> int \<Rightarrow> string" where
  "formatTimeSpan_spec start end =
     (let diffMs = \<bar>end - start\<bar>;
          milliseconds = diffMs mod 1000;
          totalSeconds = diffMs div 1000;
          seconds = totalSeconds mod 60;
          totalMinutes = totalSeconds div 60;
          minutes = totalMinutes mod 60;
          hours = totalMinutes div 60
      in pad2 hours @ '':'' @ pad2 minutes @ '':'' @ pad2 seconds @ ''.'' @ pad3 milliseconds)"

text \<open>
  The number of days of month \<open>m\<close> (0 to 11) of year \<open>y\<close>, to say which triples of
  year, month and date are dates of the calendar.
\<close>

definition DaysInMonth :: "int \<Rightarrow> int \<Rightarrow> int" where
  "DaysInMonth y m =
     (if m = 1 then (if DaysInYear y = 365 then 28 else 29)
      else if m = 3 \<or> m = 5 \<or> m = 8 \<or> m = 10 then 30
      else 31)"

text \<open>The angle of section 4.5 of the specification, in its own words.\<close>

definition clockHandAngle_spec :: "int \<Rightarrow> int \<Rightarrow> real" where
  "clockHandAngle_spec h m =
     (let h12 = h mod 12;
          angle = (pi / 360) * \<bar>of_int (60 * h12 - 11 * m)\<bar>
      in if angle > pi then 2 * pi - angle else angle)"

text \<open>The same formula with every operation rounded to the nearest double.\<close>

definition clockHandAngle_spec_double :: "int \<Rightarrow> int \<Rightarrow> rat" where
  "clockHandAngle_spec_double h m =
     (let h12 = h mod 12;
          angle = round_double (round_double (Math_PI / 360) * of_int \<bar>60 * h12 - 11 * m\<bar>)
      in if angle > Math_PI then round_double (round_double (2 * Math_PI) - angle) else angle)"

section \<open>The calendar of ECMA-262\<close>

subsection \<open>The year of a day number\<close>

lemma div_succ:
  fixes a k :: int
  assumes "0 < k"
  shows "(a + 1) div k = a div k + (if (a + 1) mod k = 0 then 1 else 0)"
proof -
  define q r where "q = a div k" and "r = a mod k"
  have a: "a = k * q + r" and r: "0 \<le> r" "r < k"
    using assms by (simp_all add: q_def r_def)
  show ?thesis
  proof (cases "r + 1 = k")
    case True
    then have e: "a + 1 = k * (q + 1) + 0" using a by (simp add: algebra_simps)
    have "(a + 1) div k = q + 1" by (rule int_div_pos_eq [OF e]) (use assms in simp_all)
    moreover have "(a + 1) mod k = 0" by (rule int_mod_pos_eq [OF e]) (use assms in simp_all)
    ultimately show ?thesis by (simp add: q_def)
  next
    case False
    then have lt: "r + 1 < k" using r by simp
    have e: "a + 1 = k * q + (r + 1)" using a by simp
    have "(a + 1) div k = q" by (rule int_div_pos_eq [OF e]) (use r lt in simp_all)
    moreover have "(a + 1) mod k = r + 1" by (rule int_mod_pos_eq [OF e]) (use r lt in simp_all)
    ultimately show ?thesis using r by (simp add: q_def)
  qed
qed

lemma year_shift:
  "(y - 1968) mod 4 = 0 \<longleftrightarrow> y mod 4 = 0"
  "(y - 1900) mod 100 = 0 \<longleftrightarrow> y mod 100 = 0"
  "(y - 1600) mod 400 = 0 \<longleftrightarrow> y mod 400 = 0" for y :: int
  by (simp_all add: mod_eq_0_iff_dvd dvd_diff_left_iff)

lemma year_dvd:
  "y mod 400 = 0 \<Longrightarrow> y mod 100 = 0" "y mod 100 = 0 \<Longrightarrow> y mod 4 = 0" for y :: int
  by (auto simp add: mod_eq_0_iff_dvd elim: dvd_trans [rotated])

lemma DayFromYear_Suc: "DayFromYear (y + 1) = DayFromYear y + DaysInYear y"
proof -
  have 1: "(y + 1 - 1969) div 4 = (y - 1969) div 4 + (if y mod 4 = 0 then 1 else 0)"
    using div_succ [of 4 "y - 1969"] year_shift(1) [of y] by (simp add: algebra_simps)
  have 2: "(y + 1 - 1901) div 100 = (y - 1901) div 100 + (if y mod 100 = 0 then 1 else 0)"
    using div_succ [of 100 "y - 1901"] year_shift(2) [of y] by (simp add: algebra_simps)
  have 3: "(y + 1 - 1601) div 400 = (y - 1601) div 400 + (if y mod 400 = 0 then 1 else 0)"
    using div_succ [of 400 "y - 1601"] year_shift(3) [of y] by (simp add: algebra_simps)
  show ?thesis
    unfolding DayFromYear_def DaysInYear_def 1 2 3 using year_dvd [of y] by auto
qed

lemma DaysInYear_bounds: "365 \<le> DaysInYear y" "DaysInYear y \<le> 366"
  by (simp_all add: DaysInYear_def)

lemma DayFromYear_approx:
  "146097 * (y - 1970) - 506 \<le> 400 * DayFromYear y"
  "400 * DayFromYear y \<le> 146097 * (y - 1970) + 589"
proof -
  define a b c where "a = (y - 1969) div 4" and "b = (y - 1901) div 100" and "c = (y - 1601) div 400"
  define ra rb rc where "ra = (y - 1969) mod 4" and "rb = (y - 1901) mod 100" and "rc = (y - 1601) mod 400"
  have e: "y - 1969 = 4 * a + ra" "y - 1901 = 100 * b + rb" "y - 1601 = 400 * c + rc"
    by (simp_all add: a_def b_def c_def ra_def rb_def rc_def)
  have r: "0 \<le> ra" "ra < 4" "0 \<le> rb" "rb < 100" "0 \<le> rc" "rc < 400"
    by (simp_all add: ra_def rb_def rc_def)
  have "146097 * (y - 1970) - 506 \<le> 400 * (365 * (y - 1970) + a - b + c)"
    using e r by (simp only: distrib_left right_diff_distrib)
  then show "146097 * (y - 1970) - 506 \<le> 400 * DayFromYear y"
    by (simp add: DayFromYear_def a_def b_def c_def)
  have "400 * (365 * (y - 1970) + a - b + c) \<le> 146097 * (y - 1970) + 589"
    using e r by (simp only: distrib_left right_diff_distrib)
  then show "400 * DayFromYear y \<le> 146097 * (y - 1970) + 589"
    by (simp add: DayFromYear_def a_def b_def c_def)
qed

lemma DayFromYear_mono: "y \<le> y' \<Longrightarrow> DayFromYear y + 365 * (y' - y) \<le> DayFromYear y'"
proof (induction "nat (y' - y)" arbitrary: y')
  case 0
  then show ?case by simp
next
  case (Suc n)
  then have "n = nat ((y' - 1) - y)" "y \<le> y' - 1" by linarith+
  then have "DayFromYear y + 365 * ((y' - 1) - y) \<le> DayFromYear (y' - 1)" by (rule Suc.hyps(1))
  moreover have "DayFromYear y' = DayFromYear (y' - 1) + DaysInYear (y' - 1)"
    using DayFromYear_Suc [of "y' - 1"] by simp
  ultimately show ?case using DaysInYear_bounds(1) [of "y' - 1"]
    by (simp only: distrib_left right_diff_distrib)
qed

lemma DayFromYear_strict_mono: "y < y' \<Longrightarrow> DayFromYear y < DayFromYear y'"
  using DayFromYear_mono [of y y'] by simp

lemma DayFromYear_le_iff: "DayFromYear y \<le> DayFromYear y' \<longleftrightarrow> y \<le> y'"
  using DayFromYear_strict_mono [of y' y] DayFromYear_mono [of y y'] by (cases "y \<le> y'") auto

lemma YearFromDay_bounds:
  "DayFromYear (YearFromDay d) \<le> d" "d < DayFromYear (YearFromDay d + 1)"
proof -
  define y where "y = 1970 + (400 * d) div 146097"
  define r where "r = (400 * d) mod 146097"
  have d: "400 * d = 146097 * (y - 1970) + r" and r: "0 \<le> r" "r < 146097"
    by (simp_all add: y_def r_def)
  have lo: "DayFromYear (y - 1) \<le> d"
    using DayFromYear_approx(2) [of "y - 1"] d r
    by (simp only: distrib_left right_diff_distrib)
  have hi: "d < DayFromYear (y + 2)"
    using DayFromYear_approx(1) [of "y + 2"] d r
    by (simp only: distrib_left right_diff_distrib)
  show "DayFromYear (YearFromDay d) \<le> d"
    using lo hi unfolding YearFromDay_def y_def [symmetric] Let_def by auto
  show "d < DayFromYear (YearFromDay d + 1)"
    using lo hi unfolding YearFromDay_def y_def [symmetric] Let_def
    by (auto simp add: add.commute)
qed

lemma YearFromDay_unique:
  assumes "DayFromYear y \<le> d" "d < DayFromYear (y + 1)"
  shows "YearFromDay d = y"
proof -
  have "DayFromYear y < DayFromYear (YearFromDay d + 1)"
    using assms YearFromDay_bounds [of d] by linarith
  then have "y < YearFromDay d + 1"
    using DayFromYear_le_iff [of "YearFromDay d + 1" y] by linarith
  moreover have "DayFromYear (YearFromDay d) < DayFromYear (y + 1)"
    using assms YearFromDay_bounds [of d] by linarith
  then have "YearFromDay d < y + 1"
    using DayFromYear_le_iff [of "y + 1" "YearFromDay d"] by linarith
  ultimately show ?thesis by simp
qed

lemma TimeFromYear_le_iff: "TimeFromYear y \<le> t \<longleftrightarrow> DayFromYear y \<le> Day t"
proof -
  define q r where "q = t div 86400000" and "r = t mod 86400000"
  have "t = 86400000 * q + r" "0 \<le> r" "r < 86400000"
    by (simp_all add: q_def r_def)
  then have "86400000 * DayFromYear y \<le> t \<longleftrightarrow> DayFromYear y \<le> q"
    by linarith
  then show ?thesis by (simp add: TimeFromYear_def Day_def q_def)
qed

lemma YearFromTime_largest:
  "TimeFromYear (YearFromTime t) \<le> t \<and> (\<forall>y. TimeFromYear y \<le> t \<longrightarrow> y \<le> YearFromTime t)"
proof (intro conjI allI impI)
  show "TimeFromYear (YearFromTime t) \<le> t"
    using YearFromDay_bounds [of "Day t"] by (simp add: TimeFromYear_le_iff YearFromTime_def)
next
  fix y assume "TimeFromYear y \<le> t"
  then have "DayFromYear y < DayFromYear (YearFromTime t + 1)"
    using YearFromDay_bounds [of "Day t"] by (simp add: TimeFromYear_le_iff YearFromTime_def)
  then show "y \<le> YearFromTime t"
    using DayFromYear_le_iff [of "YearFromTime t + 1" y] by linarith
qed

subsection \<open>A time value is rebuilt from its components\<close>

lemma DayWithinYear_bounds:
  "0 \<le> DayWithinYear t" "DayWithinYear t < DaysInYear (YearFromTime t)"
  using YearFromDay_bounds [of "Day t"] DayFromYear_Suc [of "YearFromTime t"]
  by (simp_all add: DayWithinYear_def YearFromTime_def)

lemma MonthFromTime_bounds: "0 \<le> MonthFromTime t" "MonthFromTime t \<le> 11"
  by (simp_all add: MonthFromTime_def Let_def)

lemma MakeDay_from_time:
  "MakeDay (YearFromTime t) (MonthFromTime t) (DateFromTime t) = Day t"
proof -
  have m: "MonthFromTime t div 12 = 0" "MonthFromTime t mod 12 = MonthFromTime t"
    using MonthFromTime_bounds [of t] by simp_all
  define d l where "d = DayWithinYear t" and "l = InLeapYear t"
  have l: "l = 0 \<or> l = 1"
    by (simp add: l_def InLeapYear_def)
  have "DaysBeforeMonth (YearFromTime t) (MonthFromTime t) + DateFromTime t - 1 = DayWithinYear t"
    unfolding DaysBeforeMonth_def DateFromTime_def MonthFromTime_def Let_def
      InLeapYear_def [symmetric] d_def [symmetric] l_def [symmetric]
    using l by auto
  then show ?thesis
    by (simp add: MakeDay_def m DayWithinYear_def Let_def)
qed

lemma time_decomposition:
  "MakeTime (HourFromTime t) (MinFromTime t) (SecFromTime t) (msFromTime t) = TimeWithinDay t"
proof -
  define q1 where "q1 = t div 1000"
  define q2 where "q2 = q1 div 60"
  define q3 where "q3 = q2 div 60"
  have 1: "t div 60000 = q2"
    using zdiv_zmult2_eq [of 60 t 1000] by (simp add: q1_def q2_def)
  have 2: "t div 3600000 = q3"
    using zdiv_zmult2_eq [of 60 t 60000] by (simp add: 1 q3_def)
  have 3: "t div 86400000 = q3 div 24"
    using zdiv_zmult2_eq [of 24 t 3600000] by (simp add: 2)
  have e: "t = 1000 * q1 + t mod 1000" "q1 = 60 * q2 + q1 mod 60" "q2 = 60 * q3 + q2 mod 60"
    "q3 = 24 * (q3 div 24) + q3 mod 24"
    by (simp_all add: q1_def q2_def q3_def)
  have "t mod 86400000 = t - 86400000 * (t div 86400000)"
    by (simp add: minus_mult_div_eq_mod)
  also have "\<dots> = q3 mod 24 * 3600000 + q2 mod 60 * 60000 + q1 mod 60 * 1000 + t mod 1000"
    unfolding 3 using e by linarith
  finally show ?thesis
    by (simp add: MakeTime_def HourFromTime_def MinFromTime_def SecFromTime_def msFromTime_def
        TimeWithinDay_def 1 2 q1_def [symmetric])
qed

lemma MakeDate_Day: "MakeDate (Day t) (TimeWithinDay t) = t"
  by (simp add: MakeDate_def Day_def TimeWithinDay_def)

subsection \<open>\<^verbatim>\<open>Date.UTC\<close> on the UTC components of a time value\<close>

lemma whole_seconds_in_range:
  assumes "\<bar>t\<bar> \<le> 8640000000000000"
  shows "\<bar>t - t mod 1000\<bar> \<le> (8640000000000000::int)"
proof -
  define q where "q = t div 1000"
  have e: "t = 1000 * q + t mod 1000" and r: "0 \<le> t mod 1000" "t mod 1000 < 1000"
    by (simp_all add: q_def)
  have "- 8640000000000 \<le> q \<and> q \<le> 8640000000000"
    using assms e r by linarith
  moreover have "t - t mod 1000 = 1000 * q" using e by linarith
  ultimately show ?thesis by linarith
qed

lemma Date_UTC_of_time:
  "Date_UTC (Some (YearFromTime t)) (Some (MonthFromTime t)) (Some (DateFromTime t))
     (Some (HourFromTime t)) (Some (MinFromTime t)) (Some (SecFromTime t)) =
   TimeClip (MakeDate (MakeDay (MakeFullYear (YearFromTime t)) (MonthFromTime t) (DateFromTime t))
     (TimeWithinDay t - msFromTime t))"
proof -
  have "MakeTime (HourFromTime t) (MinFromTime t) (SecFromTime t) 0 = TimeWithinDay t - msFromTime t"
    using time_decomposition [of t] by (simp add: MakeTime_def)
  then show ?thesis by (simp add: Date_UTC_def)
qed

lemma Date_UTC_truncates:
  assumes "\<bar>t\<bar> \<le> 8640000000000000" "\<not> (0 \<le> YearFromTime t \<and> YearFromTime t \<le> 99)"
  shows "Date_UTC (Some (YearFromTime t)) (Some (MonthFromTime t)) (Some (DateFromTime t))
     (Some (HourFromTime t)) (Some (MinFromTime t)) (Some (SecFromTime t)) = Some (t - msFromTime t)"
proof -
  have "MakeFullYear (YearFromTime t) = YearFromTime t"
    using assms(2) by (simp add: MakeFullYear_def)
  then have "MakeDate (MakeDay (MakeFullYear (YearFromTime t)) (MonthFromTime t) (DateFromTime t))
     (TimeWithinDay t - msFromTime t) = t - msFromTime t"
    using MakeDate_Day [of t] by (simp add: MakeDay_from_time MakeDate_def)
  then show ?thesis
    using whole_seconds_in_range [OF assms(1)]
    by (simp add: Date_UTC_of_time TimeClip_def msFromTime_def)
qed

lemma DateFromTime_bounds: "1 \<le> DateFromTime t" "DateFromTime t \<le> 31"
proof -
  define d l where "d = DayWithinYear t" and "l = InLeapYear t"
  have l: "l = 0 \<or> l = 1" "d < 365 + l" "0 \<le> d"
    using DayWithinYear_bounds [of t]
    by (auto simp add: l_def d_def InLeapYear_def DaysInYear_def)
  show "1 \<le> DateFromTime t"
    unfolding DateFromTime_def MonthFromTime_def Let_def d_def [symmetric] l_def [symmetric]
    using l by auto
  show "DateFromTime t \<le> 31"
    unfolding DateFromTime_def MonthFromTime_def Let_def d_def [symmetric] l_def [symmetric]
    using l by auto
qed

lemma DaysBeforeMonth_bounds: "0 \<le> DaysBeforeMonth y m" "DaysBeforeMonth y m \<le> 335"
  by (simp_all add: DaysBeforeMonth_def Let_def)

lemma TimeWithinDay_whole_seconds:
  "0 \<le> TimeWithinDay t - msFromTime t" "TimeWithinDay t - msFromTime t < 86400000"
  "(TimeWithinDay t - msFromTime t) mod 1000 = 0"
proof -
  have "TimeWithinDay t - msFromTime t =
      HourFromTime t * 3600000 + MinFromTime t * 60000 + SecFromTime t * 1000"
    using time_decomposition [of t] by (simp add: MakeTime_def)
  moreover have "0 \<le> HourFromTime t" "0 \<le> MinFromTime t" "0 \<le> SecFromTime t"
    by (simp_all add: HourFromTime_def MinFromTime_def SecFromTime_def)
  moreover have "0 \<le> msFromTime t" "TimeWithinDay t < 86400000"
    by (simp_all add: msFromTime_def TimeWithinDay_def)
  ultimately show "0 \<le> TimeWithinDay t - msFromTime t" "TimeWithinDay t - msFromTime t < 86400000"
    "(TimeWithinDay t - msFromTime t) mod 1000 = 0"
    by simp_all
qed

lemma Date_UTC_two_digit_year:
  assumes "0 \<le> YearFromTime t" "YearFromTime t \<le> 99"
  shows "\<exists>r. Date_UTC (Some (YearFromTime t)) (Some (MonthFromTime t)) (Some (DateFromTime t))
     (Some (HourFromTime t)) (Some (MinFromTime t)) (Some (SecFromTime t)) = Some r \<and> r mod 1000 = 0"
proof -
  define y where "y = 1900 + YearFromTime t"
  define r where "r = MakeDate (MakeDay y (MonthFromTime t) (DateFromTime t))
     (TimeWithinDay t - msFromTime t)"
  have m: "MonthFromTime t div 12 = 0" "MonthFromTime t mod 12 = MonthFromTime t"
    using MonthFromTime_bounds [of t] by simp_all
  have "DayFromYear 1900 \<le> DayFromYear y" "DayFromYear y \<le> DayFromYear 1999"
    using assms by (simp_all add: DayFromYear_le_iff y_def)
  then have "- 25567 \<le> DayFromYear y" "DayFromYear y \<le> 10592"
    by (simp_all add: DayFromYear_def)
  then have "- 25567 \<le> MakeDay y (MonthFromTime t) (DateFromTime t)"
     "MakeDay y (MonthFromTime t) (DateFromTime t) \<le> 10592 + 335 + 31"
    using DateFromTime_bounds [of t] DaysBeforeMonth_bounds [of y "MonthFromTime t"]
    by (simp_all add: MakeDay_def m Let_def)
  then have "\<bar>r\<bar> \<le> 8640000000000000"
    using TimeWithinDay_whole_seconds(1,2) [of t] by (simp add: r_def MakeDate_def)
  moreover have "r mod 1000 = 0"
    using TimeWithinDay_whole_seconds(3) [of t] by (simp add: r_def MakeDate_def mod_eq_0_iff_dvd)
  moreover have "MakeFullYear (YearFromTime t) = y"
    using assms by (simp add: MakeFullYear_def y_def)
  ultimately show ?thesis
    by (simp add: Date_UTC_of_time TimeClip_def r_def)
qed

subsection \<open>The components of a calendar date\<close>

lemma Day_MakeDate:
  assumes "0 \<le> tod" "tod < 86400000"
  shows "Day (MakeDate day tod) = day"
proof -
  have "MakeDate day tod = 86400000 * day + tod"
    by (simp add: MakeDate_def)
  then show ?thesis
    unfolding Day_def using assms by (intro int_div_pos_eq)
qed

lemma month_cases:
  assumes "0 \<le> m" "m \<le> 11"
  shows "m = 0 \<or> m = 1 \<or> m = 2 \<or> m = 3 \<or> m = 4 \<or> m = 5 \<or> m = 6 \<or> m = 7 \<or> m = 8
    \<or> m = 9 \<or> m = 10 \<or> m = (11::int)"
  using assms by presburger

lemma MakeDay_in_year:
  assumes "0 \<le> m" "m \<le> 11" "1 \<le> d" "d \<le> DaysInMonth y m"
  shows "DayFromYear y \<le> MakeDay y m d" "MakeDay y m d < DayFromYear (y + 1)"
    and "MakeDay y m d - DayFromYear y = DaysBeforeMonth y m + d - 1"
proof -
  have m: "m div 12 = 0" "m mod 12 = m"
    using assms by simp_all
  have e: "MakeDay y m d = DayFromYear y + DaysBeforeMonth y m + d - 1"
    by (simp add: MakeDay_def m Let_def)
  have "0 \<le> DaysBeforeMonth y m"
    by (simp add: DaysBeforeMonth_def Let_def)
  then show "DayFromYear y \<le> MakeDay y m d"
    using assms(3) e by linarith
  have "DaysBeforeMonth y m + DaysInMonth y m \<le> DaysInYear y"
    using month_cases [OF assms(1,2)] DaysInYear_bounds [of y]
    by (auto simp add: DaysBeforeMonth_def DaysInMonth_def Let_def)
  then show "MakeDay y m d < DayFromYear (y + 1)"
    using assms(4) e by (simp add: DayFromYear_Suc)
  show "MakeDay y m d - DayFromYear y = DaysBeforeMonth y m + d - 1"
    using e by simp
qed

lemma YearFromTime_MakeDate:
  assumes "0 \<le> m" "m \<le> 11" "1 \<le> d" "d \<le> DaysInMonth y m" "0 \<le> tod" "tod < 86400000"
  shows "YearFromTime (MakeDate (MakeDay y m d) tod) = y"
  unfolding YearFromTime_def Day_MakeDate [OF assms(5,6)]
  using MakeDay_in_year(1,2) [OF assms(1-4)] by (rule YearFromDay_unique)

lemma MonthFromTime_MakeDate:
  assumes "0 \<le> m" "m \<le> 11" "1 \<le> d" "d \<le> DaysInMonth y m" "0 \<le> tod" "tod < 86400000"
  shows "MonthFromTime (MakeDate (MakeDay y m d) tod) = m"
    and "DateFromTime (MakeDate (MakeDay y m d) tod) = d"
proof -
  let ?t = "MakeDate (MakeDay y m d) tod"
  define l :: int where "l = (if DaysInYear y = 365 then 0 else 1)"
  have y: "YearFromTime ?t = y"
    using assms by (rule YearFromTime_MakeDate)
  have l: "InLeapYear ?t = l"
    by (simp add: InLeapYear_def y l_def)
  have w: "DayWithinYear ?t = DaysBeforeMonth y m + d - 1"
    using MakeDay_in_year(3) [OF assms(1-4)]
    by (simp add: DayWithinYear_def y Day_MakeDate [OF assms(5,6)])
  have l01: "l = 0 \<or> l = 1" by (simp add: l_def)
  have dm: "DaysInMonth y m = (if m = 1 then 28 + l else if m = 3 \<or> m = 5 \<or> m = 8 \<or> m = 10 then 30 else 31)"
    by (simp add: DaysInMonth_def l_def)
  have db: "DaysBeforeMonth y m = (if m = 0 then 0
         else if m = 1 then 31
         else if m = 2 then 59 + l
         else if m = 3 then 90 + l
         else if m = 4 then 120 + l
         else if m = 5 then 151 + l
         else if m = 6 then 181 + l
         else if m = 7 then 212 + l
         else if m = 8 then 243 + l
         else if m = 9 then 273 + l
         else if m = 10 then 304 + l
         else 334 + l)"
    by (simp add: DaysBeforeMonth_def l_def Let_def)
  show 1: "MonthFromTime ?t = m"
    unfolding MonthFromTime_def Let_def l w db
    apply (insert month_cases [OF assms(1,2)] l01 assms(3) assms(4) [unfolded dm])
    apply (elim disjE)
    apply simp_all
    done
  show "DateFromTime ?t = d"
    unfolding DateFromTime_def Let_def 1 l w db
    apply (insert month_cases [OF assms(1,2)])
    apply (elim disjE)
    apply simp_all
    done
qed

lemma MakeDay_first:
  assumes "0 \<le> m" "m \<le> 11"
  shows "YearFromTime (MakeDate (MakeDay y m 1) 0) = y \<and> MonthFromTime (MakeDate (MakeDay y m 1) 0) = m
    \<and> DateFromTime (MakeDate (MakeDay y m 1) 0) = 1"
proof -
  have "1 \<le> DaysInMonth y m" by (simp add: DaysInMonth_def)
  then show ?thesis
    using assms by (simp add: YearFromTime_MakeDate MonthFromTime_MakeDate)
qed

section \<open>Remainders, digits and rounding\<close>

lemma js_rem_eq_0_iff: "js_rem a b = 0 \<longleftrightarrow> a mod b = 0"
  by (auto simp add: js_rem_def mod_eq_0_iff_dvd sgn_if)

lemma js_rem_nonneg: "0 \<le> a \<Longrightarrow> 0 < b \<Longrightarrow> js_rem a b = a mod b"
  by (simp add: js_rem_def sgn_if)

lemma js_rem_neg: "a < 0 \<Longrightarrow> 0 < b \<Longrightarrow> js_rem a b = - ((- a) mod b)"
  by (simp add: js_rem_def sgn_if)

lemma digits_small: "n < 10 \<Longrightarrow> digits n = [digit_char n]"
  by simp

lemma digits_large: "10 \<le> n \<Longrightarrow> digits n = digits (n div 10) @ [digit_char (n mod 10)]"
  by simp

declare digits.simps [simp del]

lemma digit_val_digit_char: "n < 10 \<Longrightarrow> digit_val (digit_char n) = n"
  by (simp add: digit_val_def digit_char_def)

lemma is_digit_digit_char: "n < 10 \<Longrightarrow> is_digit (digit_char n)"
  by (simp add: is_digit_def digit_char_def)

lemma digits_all_digits: "c \<in> set (digits n) \<Longrightarrow> is_digit c"
proof (induction n rule: digits.induct)
  case (1 n)
  show ?case
  proof (cases "n < 10")
    case True
    with 1 show ?thesis by (simp add: digits_small is_digit_digit_char)
  next
    case False
    with 1 show ?thesis by (auto simp add: digits_large is_digit_digit_char)
  qed
qed

lemma digits_not_Nil: "digits n \<noteq> []"
  by (cases "n < 10") (simp_all add: digits_small digits_large)

lemma digits_val_snoc: "digits_val (s @ [c]) = 10 * digits_val s + digit_val c"
  by (simp add: digits_val_def)

lemma digits_val_digits: "digits_val (digits n) = n"
proof (induction n rule: digits.induct)
  case (1 n)
  show ?case
  proof (cases "n < 10")
    case True
    then show ?thesis by (simp add: digits_small digits_val_def digit_val_digit_char)
  next
    case False
    with 1 show ?thesis by (simp add: digits_large digits_val_snoc digit_val_digit_char)
  qed
qed

lemma digits_inj: "digits m = digits n \<Longrightarrow> m = n"
  by (metis digits_val_digits)

lemma not_digit: "\<not> is_digit CHR ''-''" "\<not> is_digit CHR '':''" "\<not> is_digit CHR ''.''"
  by (simp_all add: is_digit_def)

lemma digits_no_sep:
  "CHR ''-'' \<notin> set (digits n)" "CHR '':'' \<notin> set (digits n)" "CHR ''.'' \<notin> set (digits n)"
  using digits_all_digits not_digit by blast+

lemma hd_digits: "hd (digits n) \<noteq> CHR ''-''"
  using digits_no_sep(1) [of n] digits_not_Nil [of n] by (cases "digits n") auto

lemma StringToNumber_minus_digits: "StringToNumber (CHR ''-'' # digits n) = - int n"
  by (simp add: StringToNumber_def digits_val_digits)

lemma StringToNumber_digits: "StringToNumber (digits n) = int n"
proof -
  obtain c r where e: "digits n = c # r"
    using digits_not_Nil [of n] by (cases "digits n") auto
  then have "c \<noteq> CHR ''-''"
    using hd_digits [of n] by simp
  then have "StringToNumber (c # r) = int (digits_val (c # r))"
    by (simp add: StringToNumber_def)
  then show ?thesis
    unfolding e [symmetric] by (simp add: digits_val_digits)
qed

lemma StringToNumber_NumberToString: "StringToNumber (NumberToString i) = i"
  by (simp add: NumberToString_def StringToNumber_minus_digits StringToNumber_digits)

lemma NumberToString_no_sep:
  "CHR '':'' \<notin> set (NumberToString i)" "CHR ''.'' \<notin> set (NumberToString i)"
  by (simp_all add: NumberToString_def digits_no_sep)

lemma toFixed0_nonneg: "0 \<le> x \<Longrightarrow> toFixed0 x = digits (nat \<lfloor>x + 1 / 2\<rfloor>)"
  by (simp add: toFixed0_def)

lemma floor_half_quotient:
  fixes a :: int
  shows "\<lfloor>(of_int a :: rat) / 60 + 1 / 2\<rfloor> = (a + 30) div 60"
proof -
  have "(of_int a :: rat) / 60 + 1 / 2 = of_int (a + 30) / of_int 60"
    by (simp add: field_simps)
  then show ?thesis
    by (simp only: floor_divide_of_int_eq)
qed

lemma floor_half_quotient_3600:
  fixes a :: int
  shows "\<lfloor>(of_int a :: rat) / 3600 + 1 / 2\<rfloor> = (a + 1800) div 3600"
proof -
  have "(of_int a :: rat) / 3600 + 1 / 2 = of_int (a + 1800) / of_int 3600"
    by (simp add: field_simps)
  then show ?thesis
    by (simp only: floor_divide_of_int_eq)
qed

section \<open>The two parsers\<close>

text \<open>
  Both parsers hand the string to the host's \<^verbatim>\<open>Date\<close> constructor, so which strings
  are recognised, and which instant a recognised string denotes (its zone offset
  included), is the host's \<open>parse\<close>.  What the module adds is proved for every host.
\<close>

lemma parseDataFromRfc2822_Some:
  assumes "valueOf (new_Date_string parse v) = Some t"
  shows "parseDataFromRfc2822 parse v =
    Date_UTC (Some (YearFromTime t)) (Some (MonthFromTime t)) (Some (DateFromTime t))
     (Some (HourFromTime t)) (Some (MinFromTime t)) (Some (SecFromTime t))"
  using assms
  by (simp add: parseDataFromRfc2822_def Let_def getUTCFullYear_def getUTCMonth_def
      getUTCDate_def getUTCHours_def getUTCMinutes_def getUTCSeconds_def)

lemma parseDataFromRfc2822_None:
  assumes "valueOf (new_Date_string parse v) = None"
  shows "parseDataFromRfc2822 parse v = None"
  using assms
  by (simp add: parseDataFromRfc2822_def Let_def getUTCFullYear_def Date_UTC_def)

lemma new_Date_string_Some:
  "valueOf (new_Date_string parse v) = Some t \<longleftrightarrow> parse v = Some t \<and> \<bar>t\<bar> \<le> 8640000000000000"
  by (auto simp add: new_Date_string_def TimeClip_def split: option.splits if_splits)



text \<open>
  Claim C10.  For every string, \<^verbatim>\<open>parseDataFromRfc2822\<close> returns NaN when the date
  built from the string is invalid, and otherwise a count of milliseconds that is
  divisible by 1000: the instant is rebuilt from the year down to the seconds, so
  the result is the parsed instant with its milliseconds set to zero (for a parsed
  year outside 0 to 99, which \<^verbatim>\<open>Date.UTC\<close> would move into 1900 to 1999).
\<close>

theorem parseDataFromRfc2822_whole_seconds:
  "(case valueOf (new_Date_string parse v) of
      None \<Rightarrow> parseDataFromRfc2822 parse v = None
    | Some t \<Rightarrow>
        (\<exists>r. parseDataFromRfc2822 parse v = Some r \<and> r mod 1000 = 0 \<and>
           (\<not> (0 \<le> YearFromTime t \<and> YearFromTime t \<le> 99) \<longrightarrow> r = t - t mod 1000)))"
proof (cases "valueOf (new_Date_string parse v)")
  case None
  then show ?thesis by (simp add: parseDataFromRfc2822_None)
next
  case (Some t)
  then have b: "\<bar>t\<bar> \<le> 8640000000000000" by (simp add: new_Date_string_Some)
  show ?thesis
  proof (cases "0 \<le> YearFromTime t \<and> YearFromTime t \<le> 99")
    case True
    then show ?thesis
      using Some Date_UTC_two_digit_year [of t] by (simp add: parseDataFromRfc2822_Some)
  next
    case False
    have "(t - t mod 1000) mod 1000 = 0"
      by (simp add: mod_eq_0_iff_dvd dvd_eq_mod_eq_0 [symmetric] minus_mod_eq_mult_div)
    then show ?thesis
      using Some False b Date_UTC_truncates [of t]
      by (simp add: parseDataFromRfc2822_Some msFromTime_def)
  qed
qed

theorem parseDataFromRfc2822_whole_seconds_witness:
  "parseDataFromRfc2822 (\<lambda>s. if s = ''2016-01-26T13:48:02.123Z'' then Some 1453816082123 else None)
     ''2016-01-26T13:48:02.123Z'' = Some 1453816082000
   \<and> parseDataFromRfc2822 (\<lambda>s. if s = ''2016-01-26T13:48:02.123Z'' then Some 1453816082123 else None)
     ''random text'' = None"
proof -
  let ?host = "\<lambda>s. if s = ''2016-01-26T13:48:02.123Z'' then Some (1453816082123 :: int) else None"
  have y: "YearFromTime 1453816082123 = 2016"
    by (simp add: YearFromTime_def YearFromDay_def Day_def DayFromYear_def)
  have v: "valueOf (new_Date_string ?host ''2016-01-26T13:48:02.123Z'') = Some 1453816082123"
    "valueOf (new_Date_string ?host ''random text'') = None"
    by (simp_all add: new_Date_string_def TimeClip_def)
  show ?thesis
    using parseDataFromRfc2822_whole_seconds [of ?host "''2016-01-26T13:48:02.123Z''"]
      parseDataFromRfc2822_whole_seconds [of ?host "''random text''"]
    unfolding v by (simp add: y)
qed





section \<open>The time span\<close>

subsection \<open>The fields of the result\<close>

lemma toFixed0_chars: "c \<in> set (toFixed0 x) \<Longrightarrow> c = CHR ''-'' \<or> is_digit c"
  by (auto simp add: toFixed0_def dest: digits_all_digits split: if_splits)

lemma toFixed0_no_sep: "CHR '':'' \<notin> set (toFixed0 x)" "CHR ''.'' \<notin> set (toFixed0 x)"
  using toFixed0_chars [of _ x] not_digit by auto

lemma addZeros_no_sep:
  "CHR '':'' \<notin> set (ToString (addZeros (Num n)))" "CHR ''.'' \<notin> set (ToString (addZeros (Num n)))"
  "CHR '':'' \<notin> set (ToString (addZeros (Str (toFixed0 x))))"
  "CHR ''.'' \<notin> set (ToString (addZeros (Str (toFixed0 x))))"
  by (simp_all add: addZeros_def NumberToString_no_sep toFixed0_no_sep)

lemma timeSpan_split:
  "\<exists>h m. timeSpan diff =
      h @ CHR '':'' # m @ CHR '':'' # ToString (addZeros (Num (timeSpan_secs diff)))
        @ CHR ''.'' # timeSpan_miliSecs diff
    \<and> CHR '':'' \<notin> set h \<and> CHR ''.'' \<notin> set h \<and> CHR '':'' \<notin> set m \<and> CHR ''.'' \<notin> set m"
  unfolding timeSpan_def timeSpan_secs_def timeSpan_miliSecs_def Let_def append_Cons append_Nil
  by (intro exI conjI, rule refl) (simp_all only: addZeros_no_sep not_False_eq_True)

lemma sep_unique:
  assumes "c \<notin> set a" "c \<notin> set a'" "a @ c # r = a' @ c # r'"
  shows "a = a' \<and> r = r'"
  using assms
proof (induction a arbitrary: a')
  case Nil
  then show ?case by (cases a') auto
next
  case (Cons x a)
  then show ?case by (cases a') auto
qed

lemma timeSpan_eq_fields:
  assumes "timeSpan x = timeSpan y"
  shows "ToString (addZeros (Num (timeSpan_secs x))) = ToString (addZeros (Num (timeSpan_secs y)))"
    and "timeSpan_miliSecs x = timeSpan_miliSecs y"
proof -
  obtain h m where x: "timeSpan x =
      h @ CHR '':'' # m @ CHR '':'' # ToString (addZeros (Num (timeSpan_secs x)))
        @ CHR ''.'' # timeSpan_miliSecs x"
    and h: "CHR '':'' \<notin> set h" "CHR ''.'' \<notin> set h" "CHR '':'' \<notin> set m" "CHR ''.'' \<notin> set m"
    using timeSpan_split [of x] by blast
  obtain h' m' where y: "timeSpan y =
      h' @ CHR '':'' # m' @ CHR '':'' # ToString (addZeros (Num (timeSpan_secs y)))
        @ CHR ''.'' # timeSpan_miliSecs y"
    and h': "CHR '':'' \<notin> set h'" "CHR ''.'' \<notin> set h'" "CHR '':'' \<notin> set m'" "CHR ''.'' \<notin> set m'"
    using timeSpan_split [of y] by blast
  define sx sy where "sx = ToString (addZeros (Num (timeSpan_secs x)))"
    and "sy = ToString (addZeros (Num (timeSpan_secs y)))"
  define px py where "px = h @ CHR '':'' # m @ CHR '':'' # sx"
    and "py = h' @ CHR '':'' # m' @ CHR '':'' # sy"
  define qx qy where "qx = m @ CHR '':'' # sx" and "qy = m' @ CHR '':'' # sy"
  have s: "CHR ''.'' \<notin> set sx" "CHR ''.'' \<notin> set sy"
    by (simp_all add: sx_def sy_def addZeros_no_sep(2))
  have p: "CHR ''.'' \<notin> set px" "CHR ''.'' \<notin> set py"
    using h h' s by (simp_all add: px_def py_def)
  have "px @ CHR ''.'' # timeSpan_miliSecs x = timeSpan x"
    unfolding x by (simp add: px_def sx_def)
  also have "\<dots> = timeSpan y"
    by (rule assms)
  also have "\<dots> = py @ CHR ''.'' # timeSpan_miliSecs y"
    unfolding y by (simp add: py_def sy_def)
  finally have "px @ CHR ''.'' # timeSpan_miliSecs x = py @ CHR ''.'' # timeSpan_miliSecs y" .
  then have "px = py \<and> timeSpan_miliSecs x = timeSpan_miliSecs y"
    using p by (intro sep_unique)
  then have 1: "px = py" and 2: "timeSpan_miliSecs x = timeSpan_miliSecs y"
    by (rule conjunct1, rule conjunct2)
  have "h @ CHR '':'' # qx = h' @ CHR '':'' # qy"
    using 1 by (simp add: px_def py_def qx_def qy_def)
  then have "h = h' \<and> qx = qy"
    using h(1) h'(1) by (intro sep_unique)
  then have "m @ CHR '':'' # sx = m' @ CHR '':'' # sy"
    by (simp add: qx_def qy_def)
  then have "m = m' \<and> sx = sy"
    using h(3) h'(3) by (intro sep_unique)
  then show "ToString (addZeros (Num (timeSpan_secs x))) = ToString (addZeros (Num (timeSpan_secs y)))"
    by (simp add: sx_def sy_def)
  from 2 show "timeSpan_miliSecs x = timeSpan_miliSecs y" .
qed

lemma NumberToString_minus:
  assumes "NumberToString s = CHR ''-'' # digits n"
  shows "s = - int n"
proof -
  have "s = StringToNumber (NumberToString s)"
    by (simp only: StringToNumber_NumberToString)
  also have "\<dots> = - int n"
    unfolding assms by (rule StringToNumber_minus_digits)
  finally show ?thesis .
qed

lemma NumberToString_chars: "c \<in> set (NumberToString i) \<Longrightarrow> c = CHR ''-'' \<or> is_digit c"
  by (auto simp add: NumberToString_def dest: digits_all_digits split: if_splits)

lemma NumberToString_nonneg_no_minus: "0 \<le> i \<Longrightarrow> CHR ''-'' \<notin> set (NumberToString i)"
  by (simp add: NumberToString_def digits_no_sep)

lemma is_digit_zero: "is_digit CHR ''0''"
  by (simp add: is_digit_def)

lemma allSecs_exact: "(diff - js_rem diff 1000) div 1000 * 1000 = diff - js_rem diff 1000"
proof (cases "0 \<le> diff")
  case True
  then show ?thesis by (simp add: js_rem_nonneg minus_mod_eq_div_mult)
next
  case False
  then have "diff - js_rem diff 1000 = - ((- diff) div 1000 * 1000)"
    by (simp add: js_rem_neg minus_mod_eq_div_mult [symmetric])
  then show ?thesis by simp
qed

lemma allMins_exact:
  "(allSecs - (if allSecs < 60 then allSecs else allSecs - n * 60)) div 60 * 60 =
    allSecs - (if allSecs < 60 then allSecs else allSecs - n * 60)" for allSecs n :: int
  by simp

lemma div_1000_trunc:
  "(d - d mod 1000) div 1000 = d div 1000" "(d mod 1000 - d) div 1000 = - (d div 1000)" for d :: int
proof -
  have "d - d mod 1000 = d div 1000 * 1000" "d mod 1000 - d = - (d div 1000) * 1000"
    by (simp_all add: minus_mod_eq_div_mult [symmetric])
  then show "(d - d mod 1000) div 1000 = d div 1000" "(d mod 1000 - d) div 1000 = - (d div 1000)"
    by simp_all
qed

lemma StringToNumber_toFixed0_60:
  assumes "0 \<le> a"
  shows "StringToNumber (toFixed0 (of_int a / 60)) = (a + 30) div 60"
proof -
  have "toFixed0 (of_int a / 60) = digits (nat ((a + 30) div 60))"
    using assms by (simp add: toFixed0_nonneg floor_half_quotient)
  moreover have "0 \<le> (a + 30) div 60"
    using assms by (simp add: pos_imp_zdiv_nonneg_iff)
  ultimately show ?thesis
    by (simp add: StringToNumber_digits)
qed

lemma timeSpan_secs_pos:
  assumes "0 \<le> d"
  shows "- 30 \<le> timeSpan_secs d"
    and "d div 1000 < 60 \<Longrightarrow> timeSpan_secs d = d div 1000"
proof -
  define S where "S = d div 1000"
  have S: "0 \<le> S" using assms by (simp add: S_def pos_imp_zdiv_nonneg_iff)
  have e: "timeSpan_secs d = (if S < 60 then S else S - (S + 30) div 60 * 60)"
    using assms S
    by (simp add: timeSpan_secs_def js_rem_nonneg div_1000_trunc Let_def S_def
        StringToNumber_toFixed0_60)
  have "(S + 30) div 60 * 60 \<le> S + 30"
    using div_mult_mod_eq [of "S + 30" 60] pos_mod_sign [of 60 "S + 30"] by linarith
  then show "- 30 \<le> timeSpan_secs d"
    using S unfolding e by simp
  show "d div 1000 < 60 \<Longrightarrow> timeSpan_secs d = d div 1000"
    using e by (simp add: S_def)
qed

lemma timeSpan_secs_neg: "0 < d \<Longrightarrow> timeSpan_secs (- d) = - (d div 1000)"
proof -
  assume d: "0 < d"
  then have "0 \<le> d div 1000" by (simp add: pos_imp_zdiv_nonneg_iff)
  then show ?thesis
    using d by (simp add: timeSpan_secs_def js_rem_neg div_1000_trunc Let_def)
qed

lemma timeSpan_miliSecs_pos: "0 \<le> d \<Longrightarrow> CHR ''-'' \<notin> set (timeSpan_miliSecs d)"
  using not_digit(1) is_digit_zero
  by (auto simp add: timeSpan_miliSecs_def js_rem_nonneg Let_def NumberToString_nonneg_no_minus)

lemma timeSpan_miliSecs_neg:
  assumes "0 < d" "d mod 1000 \<noteq> 0"
  shows "CHR ''-'' \<in> set (timeSpan_miliSecs (- d))"
proof -
  have "0 < d mod 1000"
    using assms(2) pos_mod_sign [of 1000 d] by linarith
  then show ?thesis
    using assms(1) by (simp add: timeSpan_miliSecs_def js_rem_neg Let_def NumberToString_def)
qed

lemma timeSpan_asym:
  assumes "0 < d"
  shows "timeSpan d \<noteq> timeSpan (- d)"
proof
  assume "timeSpan d = timeSpan (- d)"
  then have s: "ToString (addZeros (Num (timeSpan_secs d))) = ToString (addZeros (Num (timeSpan_secs (- d))))"
    and m: "timeSpan_miliSecs d = timeSpan_miliSecs (- d)"
    by (rule timeSpan_eq_fields)+
  define S where "S = d div 1000"
  have S: "0 \<le> S" using assms by (simp add: S_def pos_imp_zdiv_nonneg_iff)
  have z: "d mod 1000 = 0"
    using m timeSpan_miliSecs_pos [of d] timeSpan_miliSecs_neg [of d] assms by auto
  then have "d = S * 1000" by (simp add: S_def mod_eq_0_iff_dvd)
  then have S1: "1 \<le> S" using assms by linarith
  define x where "x = timeSpan_secs d"
  have x: "- 30 \<le> x" "S < 60 \<Longrightarrow> x = S"
    using timeSpan_secs_pos [of d] assms by (simp_all add: x_def S_def)
  have r: "ToString (addZeros (Num (timeSpan_secs (- d)))) = CHR ''0'' # CHR ''-'' # digits (nat S)"
    using assms S1 by (simp add: timeSpan_secs_neg addZeros_def NumberToString_def S_def)
  have l: "ToString (addZeros (Num x)) = CHR ''0'' # CHR ''-'' # digits (nat S)"
    using s r by (simp add: x_def)
  show False
  proof (cases "x < 10")
    case True
    then have "NumberToString x = CHR ''-'' # digits (nat S)"
      using l by (simp add: addZeros_def)
    then have "x = - S"
      using NumberToString_minus [of x "nat S"] S by simp
    then show False using x S1 by (cases "S < 60") simp_all
  next
    case False
    then have "NumberToString x = CHR ''0'' # CHR ''-'' # digits (nat S)"
      using l by (simp add: addZeros_def)
    moreover have "CHR ''-'' \<notin> set (NumberToString x)"
      using False by (simp add: NumberToString_nonneg_no_minus)
    ultimately show False by simp
  qed
qed

lemma timeSpan_swap_iff: "timeSpan d = timeSpan (- d) \<longleftrightarrow> d = 0"
  using timeSpan_asym [of d] timeSpan_asym [of "- d"] by (cases d "0::int" rule: linorder_cases) auto

subsection \<open>Claims about \<^verbatim>\<open>timeSpanToString\<close>\<close>

lemma timeSpanToString_valid:
  "timeSpanToString (Date (Some s)) (Date (Some e)) = timeSpan (e - s)"
  by (simp add: timeSpanToString_def)

text \<open>
  How far the result depends on the order of the two dates: \<^verbatim>\<open>timeSpanToString\<close>
  formats the signed difference \<^verbatim>\<open>endDate - startDate\<close>, and swapping the two
  arguments leaves the result unchanged only when the two dates are the same
  instant or one of them is invalid.
\<close>

theorem timeSpanToString_swap:
  "timeSpanToString a b = timeSpanToString b a
    \<longleftrightarrow> valueOf a = None \<or> valueOf b = None \<or> valueOf a = valueOf b"
proof (cases a; cases b)
  fix x y assume ab: "a = Date x" "b = Date y"
  show ?thesis
  proof (cases x)
    case None
    then show ?thesis using ab by (simp add: timeSpanToString_def split: option.splits)
  next
    case sx: (Some s)
    show ?thesis
    proof (cases y)
      case None
      then show ?thesis using ab by (simp add: timeSpanToString_def split: option.splits)
    next
      case (Some e)
      have "timeSpan (e - s) = timeSpan (s - e) \<longleftrightarrow> e - s = 0"
        using timeSpan_swap_iff [of "e - s"] by simp
      then show ?thesis
        using ab sx Some by (auto simp add: timeSpanToString_valid)
    qed
  qed
qed

text \<open>
  Claim C1 does not hold of the code.  The difference \<^verbatim>\<open>endDate - startDate\<close> is
  used with its sign, where the span between two dates needs the absolute value.
  For the first example of the function's comment, from 10:00:00 to 11:00:00 of
  1 February 2000, the result is \<^verbatim>\<open>01:00:00.000\<close>; with the two dates swapped it is
  \<^verbatim>\<open>0-1:00:0-3600.000\<close>, which is not of the format \<^verbatim>\<open>HH:mm:ss.sss\<close> that the
  comment promises, and where the specification's decomposition gives
  \<^verbatim>\<open>01:00:00.000\<close> again.
\<close>

theorem timeSpanToString_not_symmetric:
  "timeSpanToString (Date (Some 949399200000)) (Date (Some 949402800000)) = ''01:00:00.000''
   \<and> timeSpanToString (Date (Some 949402800000)) (Date (Some 949399200000)) = ''0-1:00:0-3600.000''
   \<and> formatTimeSpan_spec 949402800000 949399200000 = ''01:00:00.000''"
  by code_simp

text \<open>
  Claim C2 does not hold of the code.  \<^verbatim>\<open>toFixed(0)\<close> rounds to the nearest integer
  where the decomposition needs the floor, so the seconds and minutes come out
  wrong when a quotient that is rounded has a fraction of one half or more.  For
  a span of 90 seconds (end after start) the result is
  \<^verbatim>\<open>0-0:02:0-30.000\<close>, where the decomposition of the claim gives \<^verbatim>\<open>00:01:30.000\<close>.
\<close>

theorem timeSpanToString_rounds_up:
  "timeSpanToString (Date (Some 949399200000)) (Date (Some 949399290000)) = ''0-0:02:0-30.000''
   \<and> formatTimeSpan_spec 949399200000 949399290000 = ''00:01:30.000''"
  by code_simp

lemma round_to_floor:
  fixes a :: int
  assumes "a mod 60 < 30"
  shows "(a + 30) div 60 = a div 60"
proof -
  have "a + 30 = 60 * (a div 60) + (a mod 60 + 30)" by simp
  moreover have "0 \<le> a mod 60 + 30" "a mod 60 + 30 < 60"
    using assms pos_mod_sign [of 60 a] by simp_all
  ultimately show ?thesis by (rule int_div_pos_eq)
qed

lemma rounded_remainder:
  fixes a :: int
  assumes "0 \<le> a" "a mod 60 < 30"
  shows "(if a < 60 then a else a - StringToNumber (toFixed0 (of_int a / 60)) * 60) = a mod 60"
proof (cases "a < 60")
  case True
  then show ?thesis using assms(1) by simp
next
  case False
  then show ?thesis
    using assms by (simp add: StringToNumber_toFixed0_60 round_to_floor minus_div_mult_eq_mod)
qed

lemma ToString_addZeros_Num: "ToString (addZeros (Num n)) = pad2 n"
  by (simp add: addZeros_def pad2_def)

lemma ToString_addZeros_hours:
  assumes "0 \<le> H"
  shows "ToString (addZeros (Str (digits (nat H)))) = pad2 H"
  using assms by (simp add: addZeros_def pad2_def StringToNumber_digits NumberToString_def)

lemma toFixed0_hours:
  fixes H r :: int
  assumes "0 \<le> H" "0 \<le> r" "r < 30"
  shows "toFixed0 (of_int (3600 * H + r) / 3600) = digits (nat H)"
proof -
  have "3600 * H + r + 1800 = 3600 * H + (r + 1800)" by simp
  moreover have "0 \<le> r + 1800" "r + 1800 < 3600" using assms by simp_all
  ultimately have "(3600 * H + r + 1800) div 3600 = H" by (rule int_div_pos_eq)
  moreover have "0 \<le> (of_int (3600 * H + r) :: rat) / 3600"
    using assms by simp
  ultimately show ?thesis
    by (simp only: toFixed0_nonneg floor_half_quotient_3600)
qed

text \<open>
  Where the rounding does no harm.  When the end is not before the start, the two
  dates are less than \<open>2 ^ 53\<close> milliseconds apart (so that their difference is
  exact in double precision), and both the seconds within the minute and the
  minutes within the hour of the span are below 30, every rounding of \<^verbatim>\<open>toFixed(0)\<close> is a floor, and \<^verbatim>\<open>timeSpanToString\<close>
  returns the decomposition of the specification; the hours are not bounded, a span
  of 26 hours gives 26.
\<close>

theorem timeSpanToString_floor_cases:
  assumes "s \<le> e" and "e - s < 9007199254740992"
    and "((e - s) div 1000) mod 60 < 30" and "((e - s) div 60000) mod 60 < 30"
  shows "timeSpanToString (Date (Some s)) (Date (Some e)) = formatTimeSpan_spec s e"
proof -
  define d where "d = e - s"
  define S where "S = d div 1000"
  define q where "q = S div 60"
  have d: "0 \<le> d" using assms(1) by (simp add: d_def)
  have S: "0 \<le> S" using d by (simp add: S_def pos_imp_zdiv_nonneg_iff)
  have q: "0 \<le> q" using S by (simp add: q_def pos_imp_zdiv_nonneg_iff)
  have q': "d div 60000 = q"
    using zdiv_zmult2_eq [of 60 d 1000] by (simp add: q_def S_def)
  have r: "S mod 60 < 30" "q mod 60 < 30"
    using assms(3,4) by (simp_all add: S_def d_def [symmetric] q')
  have secs: "(if S < 60 then S else S - StringToNumber (toFixed0 (of_int S / 60)) * 60) = S mod 60"
    using S r(1) by (rule rounded_remainder)
  have allMins: "(S - S mod 60) div 60 = q"
    by (simp add: q_def minus_mod_eq_mult_div)
  have mins: "(if q < 60 then q else q - StringToNumber (toFixed0 (of_int q / 60)) * 60) = q mod 60"
    using q r(2) by (rule rounded_remainder)
  have "S - q mod 60 * 60 = 3600 * (q div 60) + S mod 60"
    using div_mult_mod_eq [of S 60] div_mult_mod_eq [of q 60] unfolding q_def [symmetric]
    by linarith
  moreover have "0 \<le> q div 60" "0 \<le> S mod 60"
    using q by (simp_all add: pos_imp_zdiv_nonneg_iff)
  ultimately have hours: "toFixed0 (of_int (S - q mod 60 * 60) / 3600) = digits (nat (q div 60))"
    using r(1) by (simp only: toFixed0_hours)
  have ms: "ToString (if d mod 1000 < 100
        then Str (if d mod 1000 < 10 then ''00'' @ NumberToString (d mod 1000)
                  else ''0'' @ NumberToString (d mod 1000))
        else Num (d mod 1000)) = pad3 (d mod 1000)"
    by (simp add: pad3_def)
  have "timeSpan d = pad2 (q div 60) @ '':'' @ pad2 (q mod 60) @ '':'' @ pad2 (S mod 60) @ ''.''
      @ pad3 (d mod 1000)"
    unfolding timeSpan_def Let_def js_rem_nonneg [OF d, of 1000, simplified] div_1000_trunc
      S_def [symmetric] secs allMins mins hours ToString_addZeros_Num
      ToString_addZeros_hours [OF \<open>0 \<le> q div 60\<close>] ms ..
  moreover have "formatTimeSpan_spec s e = pad2 (q div 60) @ '':'' @ pad2 (q mod 60) @ '':''
      @ pad2 (S mod 60) @ ''.'' @ pad3 (d mod 1000)"
    using d by (simp add: formatTimeSpan_spec_def Let_def d_def [symmetric] S_def [symmetric]
        q_def [symmetric])
  ultimately show ?thesis
    by (simp add: timeSpanToString_valid d_def)
qed

theorem timeSpanToString_floor_cases_witness:
  "timeSpanToString (Date (Some 949399200000)) (Date (Some 949492810453)) =
     formatTimeSpan_spec 949399200000 949492810453
   \<and> formatTimeSpan_spec 949399200000 949492810453 = ''26:00:10.453''"
proof -
  have "formatTimeSpan_spec 949399200000 949492810453 = ''26:00:10.453''"
    by code_simp
  then show ?thesis
    using timeSpanToString_floor_cases [of 949399200000 949492810453] by simp
qed

text \<open>
  Claim C9.  The five examples: from 10:00:00 of a day to 11:00:00, 10:30:00,
  10:00:20, 10:00:00.250 and 15:20:10.453 of the same day, for every day number and
  every offset \<open>off\<close> of the local time in which the dates are given from UTC.
\<close>

theorem timeSpanToString_examples:
  "timeSpanToString (Date (Some (MakeDate day (MakeTime 10 0 0 0) - off)))
     (Date (Some (MakeDate day (MakeTime 11 0 0 0) - off))) = ''01:00:00.000''
   \<and> timeSpanToString (Date (Some (MakeDate day (MakeTime 10 0 0 0) - off)))
     (Date (Some (MakeDate day (MakeTime 10 30 0 0) - off))) = ''00:30:00.000''
   \<and> timeSpanToString (Date (Some (MakeDate day (MakeTime 10 0 0 0) - off)))
     (Date (Some (MakeDate day (MakeTime 10 0 20 0) - off))) = ''00:00:20.000''
   \<and> timeSpanToString (Date (Some (MakeDate day (MakeTime 10 0 0 0) - off)))
     (Date (Some (MakeDate day (MakeTime 10 0 0 250) - off))) = ''00:00:00.250''
   \<and> timeSpanToString (Date (Some (MakeDate day (MakeTime 10 0 0 0) - off)))
     (Date (Some (MakeDate day (MakeTime 15 20 10 453) - off))) = ''05:20:10.453''"
proof -
  have "timeSpan 3600000 = ''01:00:00.000''" "timeSpan 1800000 = ''00:30:00.000''"
    "timeSpan 20000 = ''00:00:20.000''" "timeSpan 250 = ''00:00:00.250''"
    "timeSpan 19210453 = ''05:20:10.453''"
    by code_simp+
  then show ?thesis
    by (simp add: timeSpanToString_valid MakeDate_def MakeTime_def)
qed

section \<open>The leap year\<close>

lemma isLeapYear_year:
  "isLeapYear tza (Date (Some t)) \<longleftrightarrow>
     (let y = YearFromTime (LocalTime tza t) in y mod 400 = 0 \<or> (y mod 100 \<noteq> 0 \<and> y mod 4 = 0))"
  by (simp add: isLeapYear_def getFullYear_def js_rem_eq_0_iff Let_def)

text \<open>
  Claim C5.  For every date whose local time is a date of the calendar in year \<open>Y\<close>
  (any month, any day of that month, any time of the day), \<^verbatim>\<open>isLeapYear\<close> returns
  true if and only if \<open>Y\<close> is divisible by 400, or divisible by 4 and not by 100.
  The right-hand side mentions the year only, and the function is total.
\<close>

theorem isLeapYear_gregorian:
  assumes "LocalTime tza t = MakeDate (MakeDay Y m d) tod"
    and "0 \<le> m" "m \<le> 11" "1 \<le> d" "d \<le> DaysInMonth Y m" "0 \<le> tod" "tod < msPerDay"
  shows "isLeapYear tza (Date (Some t)) \<longleftrightarrow> Y mod 400 = 0 \<or> (Y mod 100 \<noteq> 0 \<and> Y mod 4 = 0)"
  unfolding isLeapYear_year assms(1) YearFromTime_MakeDate [OF assms(2-7)] Let_def ..

theorem isLeapYear_gregorian_witness:
  "\<not> isLeapYear (\<lambda>t. 10800000) (Date (Some (MakeDate (MakeDay 1900 1 1) 0 - 10800000)))
   \<and> isLeapYear (\<lambda>t. 10800000) (Date (Some (MakeDate (MakeDay 2000 1 1) 0 - 10800000)))
   \<and> \<not> isLeapYear (\<lambda>t. 10800000) (Date (Some (MakeDate (MakeDay 2001 1 1) 0 - 10800000)))
   \<and> isLeapYear (\<lambda>t. 10800000) (Date (Some (MakeDate (MakeDay 2012 1 1) 0 - 10800000)))
   \<and> \<not> isLeapYear (\<lambda>t. 10800000) (Date (Some (MakeDate (MakeDay 2015 1 1) 0 - 10800000)))
   \<and> isLeapYear (\<lambda>t. 10800000) (Date (Some (MakeDate (MakeDay 2012 11 31) 86399999 - 10800000)))"
  using isLeapYear_gregorian [of "\<lambda>t. 10800000" "MakeDate (MakeDay 1900 1 1) 0 - 10800000" 1900 1 1 0]
    isLeapYear_gregorian [of "\<lambda>t. 10800000" "MakeDate (MakeDay 2000 1 1) 0 - 10800000" 2000 1 1 0]
    isLeapYear_gregorian [of "\<lambda>t. 10800000" "MakeDate (MakeDay 2001 1 1) 0 - 10800000" 2001 1 1 0]
    isLeapYear_gregorian [of "\<lambda>t. 10800000" "MakeDate (MakeDay 2012 1 1) 0 - 10800000" 2012 1 1 0]
    isLeapYear_gregorian [of "\<lambda>t. 10800000" "MakeDate (MakeDay 2015 1 1) 0 - 10800000" 2015 1 1 0]
    isLeapYear_gregorian [of "\<lambda>t. 10800000" "MakeDate (MakeDay 2012 11 31) 86399999 - 10800000"
      2012 11 31 86399999]
  by (simp add: LocalTime_def DaysInMonth_def)

section \<open>The angle between the hands of the clock\<close>

lemma HourFromTime_bounds: "0 \<le> HourFromTime t" "HourFromTime t \<le> 23"
  by (simp_all add: HourFromTime_def) 

lemma MinFromTime_bounds: "0 \<le> MinFromTime t" "MinFromTime t \<le> 59"
  by (simp_all add: MinFromTime_def)

lemma angle_gt_pi_iff: "pi / 360 * of_int a > pi \<longleftrightarrow> a > 360" for a :: int
proof -
  have "pi / 360 * of_int a > pi \<longleftrightarrow> pi * (of_int a / 360) > pi * 1"
    by simp
  also have "\<dots> \<longleftrightarrow> (of_int a :: real) / 360 > 1"
    using pi_gt_zero by (simp only: mult_less_cancel_left_pos)
  also have "\<dots> \<longleftrightarrow> a > 360"
    by simp
  finally show ?thesis .
qed

lemma angle_abs: "pi / 360 * \<bar>of_int a\<bar> = pi / 360 * of_int \<bar>a\<bar>" for a :: int
  by simp

lemma angleBetweenClockHands_valid:
  assumes "\<bar>t\<bar> \<le> 8640000000000000"
  shows "angleBetweenClockHands (Some t) =
    Some (let h = (if HourFromTime t > 12 then js_rem (HourFromTime t) 12 else HourFromTime t);
              angle = (pi / 360) * \<bar>of_int (60 * h - 11 * MinFromTime t)\<bar>
          in if angle > pi then pi * 2 - angle else angle)"
  using assms
  by (simp add: angleBetweenClockHands_def new_Date_number_def TimeClip_def getUTCHours_def
      getUTCMinutes_def Let_def)

lemma clock_angle_eq:
  fixes h m :: int
  assumes "0 \<le> h" "h \<le> 23" "0 \<le> m" "m \<le> 59"
  shows "(let h' = (if h > 12 then js_rem h 12 else h);
              angle = (pi / 360) * \<bar>of_int (60 * h' - 11 * m)\<bar>
          in if angle > pi then pi * 2 - angle else angle) = clockHandAngle_spec h m"
proof (cases "h = 12")
  case False
  then have "(if h > 12 then js_rem h 12 else h) = h mod 12"
    using assms by (simp add: js_rem_nonneg)
  then show ?thesis
    by (simp add: clockHandAngle_spec_def Let_def mult.commute)
next
  case True
  have ne: "11 * m \<noteq> 360" by presburger
  have a: "\<bar>720 - 11 * m\<bar> = 720 - 11 * m" "\<bar>- (11 * m)\<bar> = 11 * m"
    using assms by simp_all
  have c: "(let h' = (if h > 12 then js_rem h 12 else h);
              angle = (pi / 360) * \<bar>of_int (60 * h' - 11 * m)\<bar>
          in if angle > pi then pi * 2 - angle else angle) =
        (if 720 - 11 * m > 360 then pi * 2 - pi / 360 * of_int (720 - 11 * m)
         else pi / 360 * of_int (720 - 11 * m))"
    unfolding Let_def True angle_abs angle_gt_pi_iff using a by simp
  have s: "clockHandAngle_spec h m =
        (if 11 * m > 360 then 2 * pi - pi / 360 * of_int (11 * m) else pi / 360 * of_int (11 * m))"
    unfolding clockHandAngle_spec_def Let_def True angle_abs angle_gt_pi_iff using a by simp
  show ?thesis
    unfolding c s using ne by (auto simp add: field_simps)
qed

lemma clockHandAngle_spec_int:
  "clockHandAngle_spec h m =
     (if \<bar>60 * (h mod 12) - 11 * m\<bar> > 360
      then pi * of_int (720 - \<bar>60 * (h mod 12) - 11 * m\<bar>) / 360
      else pi * of_int \<bar>60 * (h mod 12) - 11 * m\<bar> / 360)"
  unfolding clockHandAngle_spec_def Let_def angle_abs angle_gt_pi_iff
  by (simp add: field_simps)

lemma pi_fraction_bounds:
  fixes x :: int
  assumes "0 \<le> x" "x \<le> 360"
  shows "0 \<le> pi * of_int x / 360" "pi * of_int x / 360 \<le> pi"
proof -
  show "0 \<le> pi * of_int x / 360"
    using assms(1) pi_ge_zero by simp
  have "pi * (of_int x / 360) \<le> pi * 1"
    using assms(2) pi_ge_zero by (intro mult_left_mono) simp_all
  then show "pi * of_int x / 360 \<le> pi"
    by simp
qed

lemma clockHandAngle_spec_range:
  assumes "0 \<le> m" "m \<le> 59"
  shows "0 \<le> clockHandAngle_spec h m \<and> clockHandAngle_spec h m \<le> pi"
proof -
  define a where "a = \<bar>60 * (h mod 12) - 11 * m\<bar>"
  have "0 \<le> h mod 12" "h mod 12 < 12" by simp_all
  then have a: "0 \<le> a" "a \<le> 720"
    using assms unfolding a_def by linarith+
  show ?thesis
    unfolding clockHandAngle_spec_int a_def [symmetric]
    using a pi_fraction_bounds [of a] pi_fraction_bounds [of "720 - a"] by simp
qed

lemma angleBetweenClockHands_spec:
  assumes "\<bar>t\<bar> \<le> 8640000000000000"
  shows "angleBetweenClockHands (Some t) = Some (clockHandAngle_spec (HourFromTime t) (MinFromTime t))"
  using HourFromTime_bounds [of t] MinFromTime_bounds [of t]
    clock_angle_eq [of "HourFromTime t" "MinFromTime t"]
  by (simp add: angleBetweenClockHands_valid [OF assms])

lemma angleBetweenClockHands_None:
  "angleBetweenClockHands date = None \<longleftrightarrow> valueOf (new_Date_number date) = None"
  by (auto simp add: angleBetweenClockHands_def getUTCHours_def getUTCMinutes_def Let_def
      split: option.splits)

lemma angleBetweenClockHands_double_valid:
  assumes "\<bar>t\<bar> \<le> 8640000000000000"
  shows "angleBetweenClockHands_double (Some t) =
    Some (let h = (if HourFromTime t > 12 then js_rem (HourFromTime t) 12 else HourFromTime t);
              angle = round_double (round_double (Math_PI / 360)
                * of_int \<bar>60 * h - 11 * MinFromTime t\<bar>)
          in if angle > Math_PI then round_double (round_double (Math_PI * 2) - angle) else angle)"
  using assms
  by (simp add: angleBetweenClockHands_double_def new_Date_number_def TimeClip_def
      getUTCHours_def getUTCMinutes_def Let_def)

lemma reduced_hour:
  fixes h :: int
  assumes "0 \<le> h" "h \<le> 23" "h \<noteq> 12"
  shows "(if h > 12 then js_rem h 12 else h) = h mod 12"
  using assms by (simp add: js_rem_nonneg)

text \<open>
  Claim C3, as amended.  For every time value with UTC hour \<open>h\<close> and UTC minute \<open>m\<close>:
  when \<open>h\<close> is not 12, \<^verbatim>\<open>angleBetweenClockHands\<close> returns exactly, as a double, the
  value of the specification's formula (\<open>h12 = h mod 12\<close>,
  \<open>angle = pi / 360 * \<bar>60 * h12 - 11 * m\<bar>\<close>, and \<open>2 * pi - angle\<close> when \<open>angle > pi\<close>);
  and for every hour, 12 included, it returns the value of the formula in exact
  real arithmetic.  At the hour 12 the code leaves the hour as it is and reaches
  the value through \<open>pi / 360 * \<bar>720 - 11 * m\<bar>\<close>, by other roundings than the
  formula's.
\<close>

theorem angleBetweenClockHands_formula:
  assumes "\<bar>t\<bar> \<le> 8640000000000000" and "HourFromTime t = h" and "MinFromTime t = m"
  shows "(h \<noteq> 12 \<longrightarrow>
      angleBetweenClockHands_double (Some t) = Some (clockHandAngle_spec_double h m))
    \<and> angleBetweenClockHands (Some t) = Some (clockHandAngle_spec h m)"
proof (intro conjI impI)
  assume "h \<noteq> 12"
  then have "(if HourFromTime t > 12 then js_rem (HourFromTime t) 12 else HourFromTime t) = h mod 12"
    using HourFromTime_bounds [of t] assms(2) reduced_hour [of "HourFromTime t"] by simp
  then show "angleBetweenClockHands_double (Some t) = Some (clockHandAngle_spec_double h m)"
    using assms(3)
    by (simp add: angleBetweenClockHands_double_valid [OF assms(1)] clockHandAngle_spec_double_def
        Let_def mult.commute)
next
  show "angleBetweenClockHands (Some t) = Some (clockHandAngle_spec h m)"
    using assms(2,3) by (simp add: angleBetweenClockHands_spec [OF assms(1)])
qed

theorem angleBetweenClockHands_formula_witness:
  "angleBetweenClockHands_double (Some 1459890000000) = Some (clockHandAngle_spec_double 21 0)
   \<and> angleBetweenClockHands (Some 1459890000000) = Some (clockHandAngle_spec 21 0)
   \<and> angleBetweenClockHands (Some 1459859400000) = Some (clockHandAngle_spec 12 30)"
  using angleBetweenClockHands_formula [of 1459890000000 21 0]
    angleBetweenClockHands_formula [of 1459859400000 12 30]
  by (simp add: HourFromTime_def MinFromTime_def)

text \<open>
  Claim C3 as stated fails at 12:01 (5 April 2016, 12:01 UTC): the code returns the
  double 0.09599310885968837, and the formula of the specification gives the double
  0.09599310885968812.
\<close>

theorem angleBetweenClockHands_formula_counterexample:
  "HourFromTime 1459857660000 = 12 \<and> MinFromTime 1459857660000 = 1
   \<and> angleBetweenClockHands_double (Some 1459857660000)
       = Some (108078632322657 / 1125899906842624)
   \<and> clockHandAngle_spec_double 12 1 = 3458516234325015 / 36028797018963968
   \<and> (108078632322657 / 1125899906842624 :: rat) \<noteq> 3458516234325015 / 36028797018963968"
  by code_simp

text \<open>
  Claim C4.  For every argument the result is NaN, when the date built from the
  argument is invalid, or lies between 0 and \<open>pi\<close>; and the four examples of the
  function's comment: 00:00 gives 0, 03:00 gives \<open>pi / 2\<close>, 18:00 gives \<open>pi\<close> and 21:00
  gives \<open>pi / 2\<close>.  The angle is a real number, as in claim C3.
\<close>

theorem angleBetweenClockHands_range:
  "(case angleBetweenClockHands date of
      None \<Rightarrow> valueOf (new_Date_number date) = None
    | Some r \<Rightarrow> 0 \<le> r \<and> r \<le> pi)
   \<and> angleBetweenClockHands (Date_UTC (Some 2016) (Some 2) (Some 5) (Some 0) (Some 0) (Some 0)) = Some 0
   \<and> angleBetweenClockHands (Date_UTC (Some 2016) (Some 3) (Some 5) (Some 3) (Some 0) (Some 0))
       = Some (pi / 2)
   \<and> angleBetweenClockHands (Date_UTC (Some 2016) (Some 3) (Some 5) (Some 18) (Some 0) (Some 0))
       = Some pi
   \<and> angleBetweenClockHands (Date_UTC (Some 2016) (Some 3) (Some 5) (Some 21) (Some 0) (Some 0))
       = Some (pi / 2)"
proof (intro conjI)
  show "case angleBetweenClockHands date of
      None \<Rightarrow> valueOf (new_Date_number date) = None
    | Some r \<Rightarrow> 0 \<le> r \<and> r \<le> pi"
  proof (cases "angleBetweenClockHands date")
    case None
    then have "valueOf (new_Date_number date) = None"
      by (simp add: angleBetweenClockHands_None)
    then show ?thesis using None by simp
  next
    case (Some r)
    then obtain t where t: "date = Some t" "\<bar>t\<bar> \<le> 8640000000000000"
      using angleBetweenClockHands_None [of date]
      by (cases date) (auto simp add: new_Date_number_def TimeClip_def split: if_splits)
    then have "r = clockHandAngle_spec (HourFromTime t) (MinFromTime t)"
      using Some angleBetweenClockHands_spec [of t] by simp
    then show ?thesis
      using Some MinFromTime_bounds [of t] clockHandAngle_spec_range [of "MinFromTime t" "HourFromTime t"]
      by simp
  qed
next
  have d: "Date_UTC (Some 2016) (Some 2) (Some 5) (Some 0) (Some 0) (Some 0) = Some 1457136000000"
    "Date_UTC (Some 2016) (Some 3) (Some 5) (Some 3) (Some 0) (Some 0) = Some 1459825200000"
    "Date_UTC (Some 2016) (Some 3) (Some 5) (Some 18) (Some 0) (Some 0) = Some 1459879200000"
    "Date_UTC (Some 2016) (Some 3) (Some 5) (Some 21) (Some 0) (Some 0) = Some 1459890000000"
    by (simp_all add: Date_UTC_def MakeFullYear_def MakeDay_def MakeDate_def MakeTime_def
        DayFromYear_def DaysBeforeMonth_def DaysInYear_def TimeClip_def)
  show "angleBetweenClockHands (Date_UTC (Some 2016) (Some 2) (Some 5) (Some 0) (Some 0) (Some 0)) = Some 0"
    unfolding d by (simp add: angleBetweenClockHands_spec clockHandAngle_spec_int HourFromTime_def
        MinFromTime_def)
  show "angleBetweenClockHands (Date_UTC (Some 2016) (Some 3) (Some 5) (Some 3) (Some 0) (Some 0))
       = Some (pi / 2)"
    unfolding d by (simp add: angleBetweenClockHands_spec clockHandAngle_spec_int HourFromTime_def
        MinFromTime_def)
  show "angleBetweenClockHands (Date_UTC (Some 2016) (Some 3) (Some 5) (Some 18) (Some 0) (Some 0))
       = Some pi"
    unfolding d by (simp add: angleBetweenClockHands_spec clockHandAngle_spec_int HourFromTime_def
        MinFromTime_def)
  show "angleBetweenClockHands (Date_UTC (Some 2016) (Some 3) (Some 5) (Some 21) (Some 0) (Some 0))
       = Some (pi / 2)"
    unfolding d by (simp add: angleBetweenClockHands_spec clockHandAngle_spec_int HourFromTime_def
        MinFromTime_def)
qed

end
